theory Spec2Isabelle
  imports Main "HOL-Library.Sublist" "HOL-Library.Multiset"
begin

section \<open>WiFi setup page: scan poller of \<^verbatim>\<open>src/html/js/setup_wifi.js\<close>\<close>

text \<open>
  The script keeps two globals, \<^verbatim>\<open>setup_wifi_scan_timer\<close> and \<^verbatim>\<open>setup_wifi_ssids\<close>, and
  three handlers: \<^verbatim>\<open>setup_wifi_scan\<close> (with its anonymous success callback),
  \<^verbatim>\<open>setup_wifi_on_activate\<close> and \<^verbatim>\<open>setup_wifi_on_deactivate\<close>. JavaScript runs every handler
  to completion, so each handler is a function from state to state, and the browser
  (timers, requests in flight, the clock) is part of the state.
\<close>

subsection \<open>Values\<close>

text \<open>
  An access point as the scan API delivers it: a JSON object with the members
  \<^verbatim>\<open>ssid\<close>, \<^verbatim>\<open>auth\<close> (strings) and \<^verbatim>\<open>quality\<close> (a number), which the JSON text may
  list in any order; \<open>layout\<close> is that order, the order in which the object enumerates
  its members. The type \<open>'n\<close> stands for JavaScript numbers; the script only ever
  converts them to text. The record has the three members the API contract names and
  no others.
\<close>

datatype member_order =
    Ssid_auth_quality | Ssid_quality_auth | Auth_ssid_quality
  | Auth_quality_ssid | Quality_ssid_auth | Quality_auth_ssid

fun member_names :: "member_order \<Rightarrow> string list" where
  "member_names Ssid_auth_quality = [''ssid'', ''auth'', ''quality'']"
| "member_names Ssid_quality_auth = [''ssid'', ''quality'', ''auth'']"
| "member_names Auth_ssid_quality = [''auth'', ''ssid'', ''quality'']"
| "member_names Auth_quality_ssid = [''auth'', ''quality'', ''ssid'']"
| "member_names Quality_ssid_auth = [''quality'', ''ssid'', ''auth'']"
| "member_names Quality_auth_ssid = [''quality'', ''auth'', ''ssid'']"

record 'n access_point =
  ssid :: string
  auth :: string
  quality :: 'n
  layout :: member_order

text \<open>
  The JavaScript values the script can meet when it reads a property of the table or of
  what it found there: \<open>Function f\<close> is the built-in method \<open>f\<close> of \<^verbatim>\<open>Object.prototype\<close>.
\<close>

datatype 'n jsval =
    Undefined
  | String string
  | Number 'n
  | Object "'n access_point"
  | ObjectPrototype
  | Function string

datatype error = TypeError

text \<open>How a handler ends: normally, or by an uncaught exception, with the state it left.\<close>

datatype ('e, 's) completion = Normal 's | Throw 'e 's

fun state_of :: "('e, 's) completion \<Rightarrow> 's" where
  "state_of (Normal s) = s"
| "state_of (Throw e s) = s"

subsection \<open>The object \<^verbatim>\<open>setup_wifi_ssids\<close>\<close>

text \<open>
  \<^verbatim>\<open>var setup_wifi_ssids = {}\<close> is an ordinary object used as a dictionary. Its own
  properties are kept in creation order. Its prototype is \<^verbatim>\<open>Object.prototype\<close> (\<open>None\<close>)
  until an assignment to the key \<^verbatim>\<open>__proto__\<close> replaces it: \<^verbatim>\<open>Object.prototype\<close> has an
  accessor of that name, whose setter installs the assigned object as the prototype
  instead of creating a property.
\<close>

record 'n ssids_obj =
  own :: "(string \<times> 'n access_point) list"
  proto :: "'n access_point option"

definition empty_obj :: "'n ssids_obj" where
  "empty_obj = \<lparr>own = [], proto = None\<rparr>"

fun upsert :: "string \<Rightarrow> 'v \<Rightarrow> (string \<times> 'v) list \<Rightarrow> (string \<times> 'v) list" where
  "upsert k v [] = [(k, v)]"
| "upsert k v ((k', v') # kvs) =
     (if k = k' then (k, v) # kvs else (k', v') # upsert k v kvs)"

text \<open>\<^verbatim>\<open>setup_wifi_ssids[k] = ap\<close>\<close>

definition put_prop :: "'n ssids_obj \<Rightarrow> string \<Rightarrow> 'n access_point \<Rightarrow> 'n ssids_obj" where
  "put_prop t k ap =
     (if k = ''__proto__'' then t\<lparr>proto := Some ap\<rparr>
      else t\<lparr>own := upsert k ap (own t)\<rparr>)"

text \<open>The member names of an access point object, and reading a member.\<close>

definition ap_keys :: "string list" where
  "ap_keys = [''ssid'', ''auth'', ''quality'']"

definition ap_member :: "'n access_point \<Rightarrow> string \<Rightarrow> 'n jsval" where
  "ap_member ap k =
     (if k = ''ssid'' then String (ssid ap)
      else if k = ''auth'' then String (auth ap)
      else if k = ''quality'' then Number (quality ap)
      else Undefined)"

text \<open>The properties of \<^verbatim>\<open>Object.prototype\<close> other than \<^verbatim>\<open>__proto__\<close>; none is enumerable.\<close>

definition object_prototype_names :: "string list" where
  "object_prototype_names =
     [''constructor'', ''hasOwnProperty'', ''isPrototypeOf'', ''propertyIsEnumerable'',
      ''toLocaleString'', ''toString'', ''valueOf'', ''__defineGetter__'',
      ''__defineSetter__'', ''__lookupGetter__'', ''__lookupSetter__'']"

text \<open>
  \<^verbatim>\<open>setup_wifi_ssids[k]\<close>: an own property, else a member of the replaced prototype,
  else what \<^verbatim>\<open>Object.prototype\<close> has (the \<^verbatim>\<open>__proto__\<close> getter returns the prototype).
\<close>

definition object_prototype_get :: "'n jsval \<Rightarrow> string \<Rightarrow> 'n jsval" where
  "object_prototype_get prototype k =
     (if k = ''__proto__'' then prototype
      else if k \<in> set object_prototype_names then Function k
      else Undefined)"

definition get_prop :: "'n ssids_obj \<Rightarrow> string \<Rightarrow> 'n jsval" where
  "get_prop t k =
     (case map_of (own t) k of
        Some ap \<Rightarrow> Object ap
      | None \<Rightarrow>
          (case proto t of
             Some p \<Rightarrow>
               if k \<in> set ap_keys then ap_member p k
               else object_prototype_get (Object p) k
           | None \<Rightarrow> object_prototype_get ObjectPrototype k))"

text \<open>
  \<^verbatim>\<open>v[k]\<close> for \<open>k\<close> one of \<^verbatim>\<open>ssid\<close>, \<^verbatim>\<open>auth\<close>, \<^verbatim>\<open>quality\<close>: a member of an access point
  object; \<^verbatim>\<open>undefined\<close> on a string, a number, a function or \<^verbatim>\<open>Object.prototype\<close>; a
  TypeError on \<^verbatim>\<open>undefined\<close>.
\<close>

fun member_of :: "'n jsval \<Rightarrow> string \<Rightarrow> error + 'n jsval" where
  "member_of Undefined k = Inl TypeError"
| "member_of (Object ap) k = Inr (ap_member ap k)"
| "member_of v k = Inr Undefined"

subsection \<open>Enumeration order of \<^verbatim>\<open>for (var i in setup_wifi_ssids)\<close>\<close>

text \<open>
  Own keys that are array indices (canonical decimal numerals up to \<open>2^32 - 2\<close>) come
  first, in ascending numeric order; the other own keys follow in creation order; then
  the enumerable keys of the prototype that no own key shadows. A replaced prototype is
  an access point object, which enumerates its members in the order of its JSON text.
  The properties of \<^verbatim>\<open>Object.prototype\<close> are not enumerable.
\<close>

definition digit_of :: "char \<Rightarrow> nat option" where
  "digit_of c =
     map_of [(CHR ''0'', 0), (CHR ''1'', 1), (CHR ''2'', 2), (CHR ''3'', 3), (CHR ''4'', 4),
             (CHR ''5'', 5), (CHR ''6'', 6), (CHR ''7'', 7), (CHR ''8'', 8), (CHR ''9'', 9)] c"

fun decimal_value :: "nat \<Rightarrow> string \<Rightarrow> nat option" where
  "decimal_value acc [] = Some acc"
| "decimal_value acc (c # cs) =
     (case digit_of c of None \<Rightarrow> None | Some d \<Rightarrow> decimal_value (10 * acc + d) cs)"

definition array_index :: "string \<Rightarrow> nat option" where
  "array_index k =
     (if k = [] \<or> (hd k = CHR ''0'' \<and> tl k \<noteq> []) then None
      else case decimal_value 0 k of
             None \<Rightarrow> None
           | Some n \<Rightarrow> if n \<le> 4294967294 then Some n else None)"

definition own_keys :: "'n ssids_obj \<Rightarrow> string list" where
  "own_keys t =
     (let ks = map fst (own t) in
      map snd (sort_key fst
        (List.map_filter (\<lambda>k. map_option (\<lambda>n. (n, k)) (array_index k)) ks))
      @ filter (\<lambda>k. array_index k = None) ks)"

definition inherited_keys :: "'n ssids_obj \<Rightarrow> string list" where
  "inherited_keys t =
     (case proto t of
        None \<Rightarrow> []
      | Some p \<Rightarrow> filter (\<lambda>k. k \<notin> set (map fst (own t))) (member_names (layout p)))"

definition for_in :: "'n ssids_obj \<Rightarrow> string list" where
  "for_in t = own_keys t @ inherited_keys t"

subsection \<open>Rendering the table rows\<close>

text \<open>
  \<^verbatim>\<open>String.prototype.format\<close> is not defined in this file; the rendering takes it as the
  parameter \<open>fmt\<close>, applied to the template and the list of arguments.
\<close>

type_synonym 'n formatter = "string \<Rightarrow> 'n jsval list \<Rightarrow> string"

definition row_template :: string where
  \<open>row_template = ''<tr><th scope="row">{0}</th><td>{1}</td><td>{2}</td>''\<close>

definition cell_open :: string where
  \<open>cell_open = ''<td class="text-center">''\<close>

definition button_template :: string where
  \<open>button_template =
     ''<button class="btn btn-sm btn-outline-success" ssid="{0}">Connect</button></td></tr>''
     @ [CHR 0x0A]\<close>

text \<open>One pass of the second loop's body: the text appended to \<^verbatim>\<open>res\<close> for the value \<open>v\<close>.\<close>

definition row :: "'n formatter \<Rightarrow> 'n jsval \<Rightarrow> error + string" where
  "row fmt v =
     (case member_of v ''ssid'' of Inl e \<Rightarrow> Inl e | Inr s \<Rightarrow>
     (case member_of v ''auth'' of Inl e \<Rightarrow> Inl e | Inr a \<Rightarrow>
     (case member_of v ''quality'' of Inl e \<Rightarrow> Inl e | Inr q \<Rightarrow>
     (case member_of v ''ssid'' of Inl e \<Rightarrow> Inl e | Inr s' \<Rightarrow>
        Inr (fmt row_template [s, a, q] @ cell_open @ fmt button_template [s'])))))"

fun render_rows :: "'n formatter \<Rightarrow> 'n ssids_obj \<Rightarrow> string list \<Rightarrow> string \<Rightarrow> error + string" where
  "render_rows fmt t [] res = Inr res"
| "render_rows fmt t (i # is) res =
     (case row fmt (get_prop t i) of
        Inl e \<Rightarrow> Inl e
      | Inr r \<Rightarrow> render_rows fmt t is (res @ r))"

definition render :: "'n formatter \<Rightarrow> 'n ssids_obj \<Rightarrow> error + string" where
  "render fmt t = render_rows fmt t (for_in t) []"

subsection \<open>Page and browser state\<close>

text \<open>
  The two globals of the script, the global \<^verbatim>\<open>api_base\<close> it reads, the content of
  \<^verbatim>\<open>#setup_wifi_ssids tbody\<close>, the console, and the browser's side: the clock in
  milliseconds, the pending timers (handle and due time; every timer of this script
  calls \<^verbatim>\<open>setup_wifi_scan\<close>) and the requests in flight (number and URL).
\<close>

record 'n state =
  api_base :: string
  setup_wifi_scan_timer :: "nat option"
  setup_wifi_ssids :: "'n ssids_obj"
  tbody :: string
  console :: "string list"
  clock :: nat
  timers :: "(nat \<times> nat) list"
  next_timer :: nat
  in_flight :: "(nat \<times> string) list"
  next_request :: nat

definition script_load :: "string \<Rightarrow> string \<Rightarrow> 'n state" where
  "script_load base html =
     \<lparr>api_base = base, setup_wifi_scan_timer = None, setup_wifi_ssids = empty_obj,
      tbody = html, console = [], clock = 0, timers = [], next_timer = 1,
      in_flight = [], next_request = 0\<rparr>"

definition console_log :: "string \<Rightarrow> 'n state \<Rightarrow> 'n state" where
  "console_log msg s = s\<lparr>console := console s @ [msg]\<rparr>"

definition set_html :: "string \<Rightarrow> 'n state \<Rightarrow> 'n state" where
  "set_html h s = s\<lparr>tbody := h\<rparr>"

text \<open>\<^verbatim>\<open>setTimeout(setup_wifi_scan, delay)\<close> returns a fresh handle.\<close>

definition setTimeout :: "nat \<Rightarrow> 'n state \<Rightarrow> nat \<times> 'n state" where
  "setTimeout delay s =
     (next_timer s,
      s\<lparr>timers := timers s @ [(next_timer s, clock s + delay)],
        next_timer := Suc (next_timer s)\<rparr>)"

text \<open>\<^verbatim>\<open>clearTimeout(h)\<close>: nothing happens for \<^verbatim>\<open>undefined\<close> or a handle that is not pending.\<close>

definition clearTimeout :: "nat option \<Rightarrow> 'n state \<Rightarrow> 'n state" where
  "clearTimeout h s =
     (case h of
        None \<Rightarrow> s
      | Some t \<Rightarrow> s\<lparr>timers := filter (\<lambda>p. fst p \<noteq> t) (timers s)\<rparr>)"

text \<open>\<^verbatim>\<open>$.getJSON(url, callback)\<close> sends the request and returns at once.\<close>

definition getJSON :: "string \<Rightarrow> 'n state \<Rightarrow> 'n state" where
  "getJSON url s =
     s\<lparr>in_flight := in_flight s @ [(next_request s, url)],
       next_request := Suc (next_request s)\<rparr>"

subsection \<open>The handlers\<close>

text \<open>
  What comes back for a request. jQuery calls the success callback only with a parsed
  body; the body is JSON \<^verbatim>\<open>null\<close> or an object, whose member \<^verbatim>\<open>access-points\<close> is absent
  (\<open>None\<close>) or an array of access points.
\<close>

datatype 'n json_body = Json_null | Json_object "'n access_point list option"

datatype 'n response = NetworkError | MalformedJSON | Parsed "'n json_body"

definition setup_wifi_scan :: "'n state \<Rightarrow> 'n state" where
  "setup_wifi_scan s = getJSON (api_base s @ ''wifi/scan'') s"

text \<open>
  The first loop of the callback. \<^verbatim>\<open>for (var i in aps)\<close> visits the indices of the array
  in ascending order, and does nothing when \<^verbatim>\<open>aps\<close> is \<^verbatim>\<open>undefined\<close>.
\<close>

fun merge_aps :: "'n ssids_obj \<Rightarrow> 'n access_point list \<Rightarrow> 'n ssids_obj" where
  "merge_aps t [] = t"
| "merge_aps t (ap # aps) = merge_aps (put_prop t (ssid ap) ap) aps"

text \<open>The success callback passed to \<^verbatim>\<open>$.getJSON\<close>.\<close>

definition scan_callback :: "'n formatter \<Rightarrow> 'n json_body \<Rightarrow> 'n state \<Rightarrow> (error, 'n state) completion" where
  "scan_callback fmt data s =
     (case data of
        Json_null \<Rightarrow> Throw TypeError s
      | Json_object aps \<Rightarrow>
          let s1 = console_log ''scan done'' s;
              s2 = s1\<lparr>setup_wifi_ssids :=
                     merge_aps (setup_wifi_ssids s1) (case aps of None \<Rightarrow> [] | Some l \<Rightarrow> l)\<rparr>
          in (case render fmt (setup_wifi_ssids s2) of
                Inl e \<Rightarrow> Throw e s2
              | Inr res \<Rightarrow>
                  (let s3 = set_html res s2;
                       (h, s4) = setTimeout 5000 s3
                   in Normal (s4\<lparr>setup_wifi_scan_timer := Some h\<rparr>))))"

definition setup_wifi_on_activate :: "'n state \<Rightarrow> 'n state" where
  "setup_wifi_on_activate s =
     setup_wifi_scan
       (set_html ''<tr><td>Scanning...</td></tr>'' (console_log ''setup wifi activate'' s))"

definition setup_wifi_on_deactivate :: "'n state \<Rightarrow> 'n state" where
  "setup_wifi_on_deactivate s =
     clearTimeout (setup_wifi_scan_timer s) (console_log ''setup wifi DEactivate'' s)"

subsection \<open>Events\<close>

text \<open>
  What can happen to the page: the router activates or deactivates the view, a request
  in flight is answered, a timer that is due fires, time passes. An event that cannot
  happen in a state has no successor.
\<close>

datatype 'n event =
    Activate
  | Deactivate
  | Respond nat "'n response"
  | Fire nat
  | Elapse nat

definition deliver :: "'n formatter \<Rightarrow> nat \<Rightarrow> 'n response \<Rightarrow> 'n state \<Rightarrow> 'n state" where
  "deliver fmt r resp s =
     (let s' = s\<lparr>in_flight := filter (\<lambda>p. fst p \<noteq> r) (in_flight s)\<rparr> in
      case resp of
        NetworkError \<Rightarrow> s'
      | MalformedJSON \<Rightarrow> s'
      | Parsed data \<Rightarrow> state_of (scan_callback fmt data s'))"

definition step :: "'n formatter \<Rightarrow> 'n event \<Rightarrow> 'n state \<Rightarrow> 'n state option" where
  "step fmt ev s =
     (case ev of
        Activate \<Rightarrow> Some (setup_wifi_on_activate s)
      | Deactivate \<Rightarrow> Some (setup_wifi_on_deactivate s)
      | Respond r resp \<Rightarrow>
          if r \<in> fst ` set (in_flight s) then Some (deliver fmt r resp s) else None
      | Fire t \<Rightarrow>
          (case map_of (timers s) t of
             None \<Rightarrow> None
           | Some due \<Rightarrow>
               if due \<le> clock s
               then Some (setup_wifi_scan (s\<lparr>timers := filter (\<lambda>p. fst p \<noteq> t) (timers s)\<rparr>))
               else None)
      | Elapse d \<Rightarrow> Some (s\<lparr>clock := clock s + d\<rparr>))"

fun run :: "'n formatter \<Rightarrow> 'n event list \<Rightarrow> 'n state \<Rightarrow> 'n state option" where
  "run fmt [] s = Some s"
| "run fmt (ev # evs) s =
     (case step fmt ev s of None \<Rightarrow> None | Some s' \<Rightarrow> run fmt evs s')"

subsection \<open>The formatter\<close>

text \<open>
  Modelled from the spec: the conversion of an argument to text inside
  \<^verbatim>\<open>String.prototype.format\<close>, a function this script calls and the repository defines
  outside this file. It is JavaScript's conversion of a value to a string, with \<open>nt\<close> the
  text of a number.
\<close>

fun to_text :: "('n \<Rightarrow> string) \<Rightarrow> 'n jsval \<Rightarrow> string" where
  "to_text nt Undefined = ''undefined''"
| "to_text nt (String s) = s"
| "to_text nt (Number n) = nt n"
| "to_text nt (Object ap) = ''[object Object]''"
| "to_text nt ObjectPrototype = ''[object Object]''"
| "to_text nt (Function f) = ''function '' @ f @ ''() { [native code] }''"

text \<open>
  Modelled from the spec: the placeholder scan of \<^verbatim>\<open>String.prototype.format\<close>, which the
  spec describes as string templating with positional placeholders. Every \<^verbatim>\<open>{k}\<close> of the
  template, \<open>k\<close> a decimal numeral below the number of arguments, is replaced by the text
  of argument \<open>k\<close>; every other character is copied, and substituted text is not scanned
  again. The second argument holds the digits read since an opening brace, if one is open.
\<close>

fun substitute :: "string list \<Rightarrow> string option \<Rightarrow> string \<Rightarrow> string" where
  "substitute args None [] = []"
| "substitute args (Some ds) [] = CHR ''{'' # ds"
| "substitute args None (c # cs) =
     (if c = CHR ''{'' then substitute args (Some []) cs
      else c # substitute args None cs)"
| "substitute args (Some ds) (c # cs) =
     (if c = CHR ''}'' \<and> ds \<noteq> [] then
        (case decimal_value 0 ds of
           Some k \<Rightarrow>
             if k < length args then args ! k @ substitute args None cs
             else CHR ''{'' # ds @ CHR ''}'' # substitute args None cs
         | None \<Rightarrow> CHR ''{'' # ds @ CHR ''}'' # substitute args None cs)
      else if digit_of c \<noteq> None then substitute args (Some (ds @ [c])) cs
      else if c = CHR ''{'' then CHR ''{'' # ds @ substitute args (Some []) cs
      else CHR ''{'' # ds @ c # substitute args None cs)"

text \<open>
  Modelled from the spec: \<^verbatim>\<open>String.prototype.format\<close> itself, defined outside this file:
  the template with its placeholders replaced by the texts of the arguments.
\<close>

definition format :: "('n \<Rightarrow> string) \<Rightarrow> 'n formatter" where
  "format nt template args = substitute (map (to_text nt) args) None template"

text \<open>The text of a natural number below \<open>10^21\<close>: its decimal digits.\<close>

fun decimal :: "nat \<Rightarrow> string" where
  "decimal n =
     (if n < 10 then [''0123456789'' ! n]
      else decimal (n div 10) @ [''0123456789'' ! (n mod 10)])"

subsection \<open>Closed forms and invariants used in the proofs\<close>

text \<open>The own entries in enumeration order.\<close>

definition own_entries :: "'n ssids_obj \<Rightarrow> (string \<times> 'n access_point) list" where
  "own_entries t = map (\<lambda>k. (k, the (map_of (own t) k))) (own_keys t)"

text \<open>The row of an access point object, and the row of a value that has no members.\<close>

definition entry_row :: "'n formatter \<Rightarrow> 'n access_point \<Rightarrow> string" where
  "entry_row fmt ap =
     fmt row_template [String (ssid ap), String (auth ap), Number (quality ap)]
     @ cell_open @ fmt button_template [String (ssid ap)]"

definition undefined_row :: "'n formatter \<Rightarrow> string" where
  "undefined_row fmt =
     fmt row_template [Undefined, Undefined, Undefined]
     @ cell_open @ fmt button_template [Undefined]"

text \<open>The row as the spec-modelled formatter writes it, character by character.\<close>

definition literal_row :: "('n \<Rightarrow> string) \<Rightarrow> 'n access_point \<Rightarrow> string" where
  \<open>literal_row nt ap =
     ''<tr><th scope="row">'' @ ssid ap @ ''</th><td>'' @ auth ap @ ''</td><td>''
     @ nt (quality ap) @ ''</td>'' @ ''<td class="text-center">''
     @ ''<button class="btn btn-sm btn-outline-success" ssid="'' @ ssid ap
     @ ''">Connect</button></td></tr>'' @ [CHR 0x0A]\<close>

text \<open>
  A table as the script builds it: own keys are distinct and \<^verbatim>\<open>__proto__\<close> is never one
  of them. Timer handles and request numbers are fresh.
\<close>

definition wf_obj :: "'n ssids_obj \<Rightarrow> bool" where
  "wf_obj t \<longleftrightarrow> distinct (map fst (own t)) \<and> ''__proto__'' \<notin> set (map fst (own t))"

definition wf_state :: "'n state \<Rightarrow> bool" where
  "wf_state s \<longleftrightarrow>
     wf_obj (setup_wifi_ssids s)
     \<and> distinct (map fst (timers s)) \<and> list_all (\<lambda>p. fst p < next_timer s) (timers s)
     \<and> distinct (map fst (in_flight s)) \<and> list_all (\<lambda>p. fst p < next_request s) (in_flight s)"

text \<open>No poll is pending and no request is in flight.\<close>

definition idle :: "'n state \<Rightarrow> bool" where
  "idle s \<longleftrightarrow> timers s = [] \<and> in_flight s = []"

text \<open>A sequence of events in which the view is only activated in an idle state.\<close>

fun activated_when_idle :: "'n formatter \<Rightarrow> 'n event list \<Rightarrow> 'n state \<Rightarrow> bool" where
  "activated_when_idle fmt [] s = True"
| "activated_when_idle fmt (ev # evs) s =
     ((ev \<noteq> Activate \<or> idle s)
      \<and> (case step fmt ev s of None \<Rightarrow> True | Some s' \<Rightarrow> activated_when_idle fmt evs s'))"

text \<open>The object last assigned under a key, as own property or as prototype.\<close>

definition assigned :: "'n ssids_obj \<Rightarrow> string \<Rightarrow> 'n access_point option" where
  "assigned t k = (if k = ''__proto__'' then proto t else map_of (own t) k)"

text \<open>What the second loop writes: the rows of the own entries, then of the inherited keys.\<close>

definition table_html :: "'n formatter \<Rightarrow> 'n ssids_obj \<Rightarrow> string" where
  "table_html fmt t =
     concat (map (\<lambda>e. entry_row fmt (snd e)) (own_entries t))
     @ concat (replicate (length (inherited_keys t)) (undefined_row fmt))"

definition records_of :: "'n access_point list option \<Rightarrow> 'n access_point list" where
  "records_of aps = (case aps of None \<Rightarrow> [] | Some l \<Rightarrow> l)"

text \<open>The state a completed success callback leaves.\<close>

definition after_scan :: "'n formatter \<Rightarrow> 'n access_point list \<Rightarrow> 'n state \<Rightarrow> 'n state" where
  "after_scan fmt aps s =
     s\<lparr>console := console s @ [''scan done''],
       setup_wifi_ssids := merge_aps (setup_wifi_ssids s) aps,
       tbody := table_html fmt (merge_aps (setup_wifi_ssids s) aps),
       timers := timers s @ [(next_timer s, clock s + 5000)],
       next_timer := Suc (next_timer s),
       setup_wifi_scan_timer := Some (next_timer s)\<rparr>"

text \<open>A number of successful scan cycles in a row, one list of records per response.\<close>

fun scan_cycles :: "'n formatter \<Rightarrow> 'n access_point list list \<Rightarrow> 'n state \<Rightarrow> 'n state" where
  "scan_cycles fmt [] s = s"
| "scan_cycles fmt (aps # rs) s =
     scan_cycles fmt rs (state_of (scan_callback fmt (Json_object (Some aps)) s))"

section \<open>Properties\<close>

subsection \<open>The table as a dictionary\<close>

lemma map_of_upsert: "map_of (upsert k v kvs) = (map_of kvs)(k \<mapsto> v)"
  by (induction kvs) (auto simp: fun_eq_iff)

lemma set_keys_upsert: "fst ` set (upsert k v kvs) = insert k (fst ` set kvs)"
  by (induction k v kvs rule: upsert.induct) (simp_all add: insert_commute)

lemma distinct_keys_upsert:
  "distinct (map fst kvs) \<Longrightarrow> distinct (map fst (upsert k v kvs))"
  by (induction kvs) (auto simp: set_keys_upsert)

lemma wf_obj_put: "wf_obj t \<Longrightarrow> wf_obj (put_prop t k ap)"
  by (simp add: wf_obj_def put_prop_def set_keys_upsert distinct_keys_upsert)

lemma wf_obj_merge: "wf_obj t \<Longrightarrow> wf_obj (merge_aps t aps)"
  by (induction aps arbitrary: t) (simp_all add: wf_obj_put)

lemma assigned_put: "assigned (put_prop t k' ap) k = (if k = k' then Some ap else assigned t k)"
  by (auto simp: assigned_def put_prop_def map_of_upsert)

lemma assigned_merge:
  "assigned (merge_aps t aps) k =
     (case filter (\<lambda>a. ssid a = k) aps of [] \<Rightarrow> assigned t k | x # xs \<Rightarrow> Some (last (x # xs)))"
proof (induction aps arbitrary: t)
  case Nil
  show ?case by simp
next
  case (Cons a aps)
  show ?case
    by (simp add: Cons.IH assigned_put split: list.splits)
qed

lemma get_prop_assigned:
  assumes "wf_obj t" and "assigned t k = Some ap"
  shows "get_prop t k = Object ap"
proof (cases "k = ''__proto__''")
  case True
  with assms(1) have "map_of (own t) k = None"
    by (simp add: wf_obj_def map_of_eq_None_iff)
  moreover from True assms(2) have "proto t = Some ap"
    by (simp add: assigned_def)
  ultimately show ?thesis
    using True by (simp add: get_prop_def object_prototype_get_def ap_keys_def)
next
  case False
  with assms(2) have "map_of (own t) k = Some ap"
    by (simp add: assigned_def)
  then show ?thesis
    by (simp add: get_prop_def)
qed

lemma get_prop_merge_last:
  assumes "wf_obj t" and "\<exists>a \<in> set aps. ssid a = k"
  shows "get_prop (merge_aps t aps) k = Object (last (filter (\<lambda>a. ssid a = k) aps))"
proof -
  from assms(2) have "filter (\<lambda>a. ssid a = k) aps \<noteq> []"
    by (simp add: filter_empty_conv)
  then have "assigned (merge_aps t aps) k = Some (last (filter (\<lambda>a. ssid a = k) aps))"
    by (simp add: assigned_merge split: list.splits)
  with wf_obj_merge[OF assms(1)] show ?thesis
    by (rule get_prop_assigned)
qed

subsection \<open>Enumeration and rendering\<close>

lemma row_Object: "row fmt (Object ap) = Inr (entry_row fmt ap)"
  by (simp add: row_def entry_row_def ap_member_def)

lemma row_String: "row fmt (String x) = Inr (undefined_row fmt)"
  by (simp add: row_def undefined_row_def)

lemma row_Number: "row fmt (Number n) = Inr (undefined_row fmt)"
  by (simp add: row_def undefined_row_def)

lemma render_rows_closed:
  "\<forall>i \<in> set ks. row fmt (get_prop t i) = Inr (f i) \<Longrightarrow>
   render_rows fmt t ks res = Inr (res @ concat (map f ks))"
  by (induction ks arbitrary: res) simp_all

lemma own_keys_filter:
  "own_keys t =
     map snd (sort_key fst (List.map_filter (\<lambda>k. map_option (\<lambda>n. (n, k)) (array_index k)) (map fst (own t))))
     @ filter (\<lambda>k. array_index k = None) (map fst (own t))"
  by (simp add: own_keys_def Let_def)

lemma map_snd_indexed:
  "map snd (List.map_filter (\<lambda>k. map_option (\<lambda>n. (n, k)) (array_index k)) ks)
   = filter (\<lambda>k. array_index k \<noteq> None) ks"
  by (induction ks) (auto simp: List.map_filter_simps split: option.splits)

lemma mset_own_keys: "mset (own_keys t) = mset (map fst (own t))"
proof -
  let ?ks = "map fst (own t)"
  let ?ix = "List.map_filter (\<lambda>k. map_option (\<lambda>n. (n, k)) (array_index k)) ?ks"
  have "mset (map snd (sort_key fst ?ix)) = image_mset snd (mset (sort_key fst ?ix))"
    by simp
  also have "\<dots> = image_mset snd (mset ?ix)"
    by simp
  also have "\<dots> = mset (map snd ?ix)"
    by simp
  also have "\<dots> = mset (filter (\<lambda>k. array_index k \<noteq> None) ?ks)"
    by (simp only: map_snd_indexed)
  finally have "mset (own_keys t) =
      mset (filter (\<lambda>k. array_index k \<noteq> None) ?ks) + mset (filter (\<lambda>k. array_index k = None) ?ks)"
    by (simp only: own_keys_filter mset_append)
  also have "\<dots> = mset ?ks"
    by (simp only: mset_filter) (simp add: union_commute)
  finally show ?thesis .
qed

lemma set_own_keys: "set (own_keys t) = fst ` set (own t)"
proof -
  have "set (own_keys t) = set_mset (mset (own_keys t))" by simp
  also have "\<dots> = fst ` set (own t)" by (simp only: mset_own_keys) simp
  finally show ?thesis .
qed

lemma length_own_keys: "length (own_keys t) = length (own t)"
proof -
  have "length (own_keys t) = size (mset (own_keys t))" by simp
  also have "\<dots> = length (own t)" by (simp only: mset_own_keys) simp
  finally show ?thesis .
qed

lemma get_prop_own_key:
  assumes "k \<in> set (own_keys t)"
  shows "get_prop t k = Object (the (map_of (own t) k))"
proof -
  from assms have "k \<in> fst ` set (own t)" by (simp add: set_own_keys)
  then obtain ap where "map_of (own t) k = Some ap"
    by (cases "map_of (own t) k") (simp_all add: map_of_eq_None_iff)
  then show ?thesis by (simp add: get_prop_def)
qed

lemma set_member_names: "set (member_names o') = set ap_keys"
  by (cases o') (auto simp: ap_keys_def)

lemma get_prop_inherited_key:
  assumes "k \<in> set (inherited_keys t)"
  shows "row fmt (get_prop t k) = Inr (undefined_row fmt)"
proof -
  from assms obtain p where p: "proto t = Some p" and k: "k \<in> set ap_keys" "k \<notin> fst ` set (own t)"
    by (cases "proto t") (auto simp: inherited_keys_def set_member_names)
  from k(2) have "map_of (own t) k = None" by (simp add: map_of_eq_None_iff)
  with p k(1) have "get_prop t k = ap_member p k" by (simp add: get_prop_def)
  with k(1) show ?thesis
    by (auto simp: ap_keys_def ap_member_def row_String row_Number)
qed

lemma inherited_not_own: "k \<in> set (inherited_keys t) \<Longrightarrow> k \<notin> set (own_keys t)"
  by (cases "proto t") (auto simp: inherited_keys_def set_own_keys)

lemma render_closed:
  "render fmt t =
     Inr (concat (map (\<lambda>e. entry_row fmt (snd e)) (own_entries t))
          @ concat (replicate (length (inherited_keys t)) (undefined_row fmt)))"
proof -
  let ?f = "\<lambda>i. if i \<in> set (own_keys t) then entry_row fmt (the (map_of (own t) i))
                 else undefined_row fmt"
  have "\<forall>i \<in> set (for_in t). row fmt (get_prop t i) = Inr (?f i)"
    by (auto simp: for_in_def get_prop_own_key row_Object get_prop_inherited_key)
  then have "render fmt t = Inr (concat (map ?f (for_in t)))"
    unfolding render_def by (simp only: render_rows_closed append_Nil)
  moreover have "map ?f (own_keys t) = map (\<lambda>e. entry_row fmt (snd e)) (own_entries t)"
    by (simp add: own_entries_def)
  moreover have "map ?f (inherited_keys t) = replicate (length (inherited_keys t)) (undefined_row fmt)"
    by (simp add: inherited_not_own map_replicate_const cong: map_cong)
  ultimately show ?thesis
    by (simp add: for_in_def)
qed

lemma mset_own_entries:
  assumes "wf_obj t"
  shows "mset (own_entries t) = mset (own t)"
proof -
  let ?g = "\<lambda>k. (k, the (map_of (own t) k))"
  from assms have d: "distinct (map fst (own t))" by (simp add: wf_obj_def)
  have "mset (own_entries t) = image_mset ?g (mset (own_keys t))"
    by (simp add: own_entries_def)
  also have "\<dots> = image_mset ?g (mset (map fst (own t)))"
    by (simp only: mset_own_keys)
  also have "\<dots> = mset (map (\<lambda>e. ?g (fst e)) (own t))"
    by (simp add: multiset.map_comp comp_def)
  also have "map (\<lambda>e. ?g (fst e)) (own t) = own t"
    using d by (intro map_idI) (auto simp: map_of_eq_Some_iff)
  finally show ?thesis .
qed

subsection \<open>Handlers and events\<close>

lemma render_table_html: "render fmt t = Inr (table_html fmt t)"
  by (simp only: render_closed table_html_def)

lemma scan_callback_object:
  "scan_callback fmt (Json_object aps) s = Normal (after_scan fmt (records_of aps) s)"
  by (simp add: scan_callback_def after_scan_def records_of_def render_table_html Let_def
      console_log_def set_html_def setTimeout_def)

lemma deliver_parsed_object:
  "deliver fmt r (Parsed (Json_object aps)) s =
     after_scan fmt (records_of aps) (s\<lparr>in_flight := filter (\<lambda>p. fst p \<noteq> r) (in_flight s)\<rparr>)"
  by (simp add: deliver_def scan_callback_object)

lemma deliver_failed:
  "resp = NetworkError \<or> resp = MalformedJSON \<or> resp = Parsed Json_null \<Longrightarrow>
   deliver fmt r resp s = s\<lparr>in_flight := filter (\<lambda>p. fst p \<noteq> r) (in_flight s)\<rparr>"
  by (auto simp: deliver_def scan_callback_def)

lemma step_Respond:
  "r \<in> fst ` set (in_flight s) \<Longrightarrow> step fmt (Respond r resp) s = Some (deliver fmt r resp s)"
  by (simp add: step_def)

lemma length_filter_removed:
  "x \<in> fst ` set xs \<Longrightarrow> length (filter (\<lambda>p. fst p \<noteq> x) xs) < length xs"
proof -
  assume "x \<in> fst ` set xs"
  then obtain p where "p \<in> set xs" and "\<not> fst p \<noteq> x" by auto
  then show ?thesis by (rule length_filter_less)
qed

lemma deliver_chains:
  assumes "r \<in> fst ` set (in_flight s)"
  shows "length (timers (deliver fmt r resp s)) + length (in_flight (deliver fmt r resp s))
         \<le> length (timers s) + length (in_flight s)"
proof -
  from assms have less: "length (filter (\<lambda>p. fst p \<noteq> r) (in_flight s)) < length (in_flight s)"
    by (rule length_filter_removed)
  show ?thesis
  proof (cases resp)
    case NetworkError
    with less show ?thesis by (simp add: deliver_failed)
  next
    case MalformedJSON
    with less show ?thesis by (simp add: deliver_failed)
  next
    case (Parsed data)
    show ?thesis
    proof (cases data)
      case Json_null
      with Parsed less show ?thesis by (simp add: deliver_failed)
    next
      case (Json_object aps)
      with Parsed less show ?thesis by (simp add: deliver_parsed_object after_scan_def)
    qed
  qed
qed

lemma idle_step:
  assumes "idle s" and "ev \<noteq> Activate" and "step fmt ev s = Some s'"
  shows "idle s' \<and> next_request s' = next_request s"
proof (cases ev)
  case Activate
  with assms(2) show ?thesis by simp
next
  case Deactivate
  with assms(1,3) show ?thesis
    by (auto simp: step_def idle_def setup_wifi_on_deactivate_def clearTimeout_def console_log_def
        split: option.splits)
next
  case (Respond r resp)
  with assms(1,3) show ?thesis by (simp add: step_def idle_def)
next
  case (Fire t)
  with assms(1,3) show ?thesis by (simp add: step_def idle_def)
next
  case (Elapse d)
  with assms(1,3) show ?thesis by (auto simp: step_def idle_def)
qed

lemma idle_run:
  "idle s \<Longrightarrow> Activate \<notin> set evs \<Longrightarrow> run fmt evs s = Some s' \<Longrightarrow>
   idle s' \<and> next_request s' = next_request s"
proof (induction evs arbitrary: s)
  case Nil
  then show ?case by simp
next
  case (Cons ev evs)
  from Cons.prems(3) obtain s1 where s1: "step fmt ev s = Some s1" and r: "run fmt evs s1 = Some s'"
    by (auto split: option.splits)
  from Cons.prems(1,2) s1 have "idle s1 \<and> next_request s1 = next_request s"
    by (intro idle_step[where ev = ev and fmt = fmt]) auto
  with Cons.IH[of s1] Cons.prems(2) r show ?case by simp
qed

lemma chains_step:
  assumes "ev \<noteq> Activate \<or> idle s" and "step fmt ev s = Some s'"
    and "length (timers s) + length (in_flight s) \<le> 1"
  shows "length (timers s') + length (in_flight s') \<le> 1"
proof (cases ev)
  case Activate
  with assms(1) have "idle s" by simp
  with Activate assms(2) show ?thesis
    by (auto simp: step_def idle_def setup_wifi_on_activate_def setup_wifi_scan_def getJSON_def
        set_html_def console_log_def)
next
  case Deactivate
  have "length (filter P (timers s)) \<le> length (timers s)" for P by simp
  with Deactivate assms(2,3) show ?thesis
    by (auto simp: step_def setup_wifi_on_deactivate_def clearTimeout_def console_log_def
        le_trans[OF add_le_mono1[OF length_filter_le]] split: option.splits)
next
  case (Respond r resp)
  with assms(2) have r: "r \<in> fst ` set (in_flight s)" and s': "s' = deliver fmt r resp s"
    by (auto simp: step_def split: if_splits)
  from deliver_chains[OF r, of fmt resp] assms(3) s' show ?thesis by simp
next
  case (Fire t)
  with assms(2) obtain due where due: "map_of (timers s) t = Some due"
    and s': "s' = setup_wifi_scan (s\<lparr>timers := filter (\<lambda>p. fst p \<noteq> t) (timers s)\<rparr>)"
    by (auto simp: step_def split: option.splits if_splits)
  from due have "t \<in> fst ` set (timers s)"
    by (metis map_of_eq_None_iff option.distinct(1))
  then have "length (filter (\<lambda>p. fst p \<noteq> t) (timers s)) < length (timers s)"
    by (rule length_filter_removed)
  moreover from s' have "length (timers s') = length (filter (\<lambda>p. fst p \<noteq> t) (timers s))"
    and "length (in_flight s') = Suc (length (in_flight s))"
    by (simp_all add: setup_wifi_scan_def getJSON_def)
  ultimately show ?thesis
    using assms(3) by linarith
next
  case (Elapse d)
  with assms(2,3) show ?thesis by (auto simp: step_def)
qed

lemma chains_run:
  "length (timers s) + length (in_flight s) \<le> 1 \<Longrightarrow> activated_when_idle fmt evs s \<Longrightarrow>
   run fmt evs s = Some s' \<Longrightarrow> length (timers s') + length (in_flight s') \<le> 1"
proof (induction evs arbitrary: s)
  case Nil
  then show ?case by simp
next
  case (Cons ev evs)
  from Cons.prems(3) obtain s1 where s1: "step fmt ev s = Some s1" and r: "run fmt evs s1 = Some s'"
    by (auto split: option.splits)
  from Cons.prems(2) s1 have g: "ev \<noteq> Activate \<or> idle s" and a: "activated_when_idle fmt evs s1"
    by simp_all
  from chains_step[OF g s1 Cons.prems(1)] a r show ?case
    by (rule Cons.IH)
qed

subsection \<open>Every state the page reaches is well formed\<close>

lemma wf_state_script_load: "wf_state (script_load base html)"
  by (simp add: wf_state_def wf_obj_def script_load_def empty_obj_def)

lemma wf_state_scan: "wf_state s \<Longrightarrow> wf_state (setup_wifi_scan s)"
  by (auto simp: wf_state_def setup_wifi_scan_def getJSON_def list_all_iff)

lemma wf_state_filter_timers:
  "wf_state s \<Longrightarrow> wf_state (s\<lparr>timers := filter P (timers s)\<rparr>)"
  by (auto simp: wf_state_def list_all_iff distinct_map_filter)

lemma wf_state_filter_in_flight:
  "wf_state s \<Longrightarrow> wf_state (s\<lparr>in_flight := filter P (in_flight s)\<rparr>)"
  by (auto simp: wf_state_def list_all_iff distinct_map_filter)

lemma wf_state_after_scan: "wf_state s \<Longrightarrow> wf_state (after_scan fmt aps s)"
  by (auto simp: wf_state_def after_scan_def list_all_iff wf_obj_merge)

lemma wf_state_step:
  assumes "wf_state s" and "step fmt ev s = Some s'"
  shows "wf_state s'"
proof (cases ev)
  case Activate
  have "wf_state (set_html h (console_log m s))" for h m
    using assms(1) by (simp add: wf_state_def set_html_def console_log_def)
  with Activate assms(2) show ?thesis
    by (auto simp: step_def setup_wifi_on_activate_def intro: wf_state_scan)
next
  case Deactivate
  have "wf_state (console_log m s)" for m
    using assms(1) by (simp add: wf_state_def console_log_def)
  from wf_state_filter_timers[OF this] this Deactivate assms(2) show ?thesis
    by (auto simp: step_def setup_wifi_on_deactivate_def clearTimeout_def console_log_def
        split: option.splits)
next
  case (Respond r resp)
  with assms(2) have s': "s' = deliver fmt r resp s"
    by (auto simp: step_def split: if_splits)
  let ?s1 = "s\<lparr>in_flight := filter (\<lambda>p. fst p \<noteq> r) (in_flight s)\<rparr>"
  from assms(1) have w: "wf_state ?s1" by (rule wf_state_filter_in_flight)
  show ?thesis
  proof (cases "\<exists>aps. resp = Parsed (Json_object aps)")
    case True
    then obtain aps where "resp = Parsed (Json_object aps)" by blast
    with s' w show ?thesis
      by (simp add: deliver_parsed_object wf_state_after_scan)
  next
    case False
    then have "resp = NetworkError \<or> resp = MalformedJSON \<or> resp = Parsed Json_null"
      by (cases resp) (auto intro: json_body.exhaust)
    with s' w show ?thesis
      by (simp add: deliver_failed)
  qed
next
  case (Fire t)
  with assms(2) have "s' = setup_wifi_scan (s\<lparr>timers := filter (\<lambda>p. fst p \<noteq> t) (timers s)\<rparr>)"
    by (auto simp: step_def split: option.splits if_splits)
  with assms(1) show ?thesis
    by (simp add: wf_state_scan wf_state_filter_timers)
next
  case (Elapse d)
  with assms show ?thesis
    by (auto simp: step_def wf_state_def)
qed

lemma wf_state_run: "wf_state s \<Longrightarrow> run fmt evs s = Some s' \<Longrightarrow> wf_state s'"
proof (induction evs arbitrary: s)
  case Nil
  then show ?case by simp
next
  case (Cons ev evs)
  from Cons.prems(2) obtain s1 where "step fmt ev s = Some s1" and "run fmt evs s1 = Some s'"
    by (auto split: option.splits)
  with Cons.prems(1) Cons.IH show ?case
    by (blast intro: wf_state_step)
qed

lemma wf_state_reachable:
  "run fmt evs (script_load base html) = Some s \<Longrightarrow> wf_state s"
  using wf_state_script_load by (rule wf_state_run)

subsection \<open>Activation and deactivation\<close>

text \<open>
  C7: \<^verbatim>\<open>activate()\<close> first replaces the content of the target region by the single
  placeholder row "Scanning..." and then sends the first scan request in the same
  handler run: the request is in flight when the handler returns, the placeholder was
  already in place and no request had been added when \<^verbatim>\<open>setup_wifi_scan\<close> was called, and
  neither the clock nor the pending timers are involved.
\<close>

theorem activate_placeholder_then_immediate_scan:
  "step fmt Activate s = Some (setup_wifi_on_activate s)
   \<and> tbody (setup_wifi_on_activate s) = ''<tr><td>Scanning...</td></tr>''
   \<and> in_flight (setup_wifi_on_activate s)
       = in_flight s @ [(next_request s, api_base s @ ''wifi/scan'')]
   \<and> next_request (setup_wifi_on_activate s) = Suc (next_request s)
   \<and> timers (setup_wifi_on_activate s) = timers s
   \<and> clock (setup_wifi_on_activate s) = clock s
   \<and> (let s1 = set_html ''<tr><td>Scanning...</td></tr>'' (console_log ''setup wifi activate'' s)
      in setup_wifi_on_activate s = setup_wifi_scan s1
         \<and> tbody s1 = ''<tr><td>Scanning...</td></tr>''
         \<and> in_flight s1 = in_flight s \<and> next_request s1 = next_request s)"
  by (simp add: step_def setup_wifi_on_activate_def setup_wifi_scan_def getJSON_def
      set_html_def console_log_def)

text \<open>
  C6: \<^verbatim>\<open>deactivate()\<close> leaves the known-APs table, the rendered region and the requests
  in flight as they are; it removes from the pending timers only the one whose handle
  the script holds. When that handle is \<^verbatim>\<open>undefined\<close> or not pending, nothing changes
  but the console line. After \<^verbatim>\<open>deactivate()\<close> and \<^verbatim>\<open>activate()\<close> a new scan request is in
  flight and the table is the one from before the deactivation.
\<close>

theorem deactivate_keeps_table:
  "setup_wifi_ssids (setup_wifi_on_deactivate s) = setup_wifi_ssids s
   \<and> tbody (setup_wifi_on_deactivate s) = tbody s
   \<and> in_flight (setup_wifi_on_deactivate s) = in_flight s
   \<and> timers (setup_wifi_on_deactivate s)
       = (case setup_wifi_scan_timer s of
            None \<Rightarrow> timers s
          | Some h \<Rightarrow> filter (\<lambda>p. fst p \<noteq> h) (timers s))
   \<and> ((\<forall>p \<in> set (timers s). setup_wifi_scan_timer s \<noteq> Some (fst p)) \<longrightarrow>
        setup_wifi_on_deactivate s = console_log ''setup wifi DEactivate'' s)
   \<and> setup_wifi_ssids (setup_wifi_on_activate (setup_wifi_on_deactivate s)) = setup_wifi_ssids s
   \<and> in_flight (setup_wifi_on_activate (setup_wifi_on_deactivate s))
       = in_flight s @ [(next_request s, api_base s @ ''wifi/scan'')]"
proof -
  have noop: "setup_wifi_on_deactivate s = console_log ''setup wifi DEactivate'' s"
    if "\<forall>p \<in> set (timers s). setup_wifi_scan_timer s \<noteq> Some (fst p)"
  proof (cases "setup_wifi_scan_timer s")
    case None
    then show ?thesis
      by (simp add: setup_wifi_on_deactivate_def clearTimeout_def console_log_def)
  next
    case (Some h)
    with that have "filter (\<lambda>p. fst p \<noteq> h) (timers s) = timers s"
      by (auto simp: filter_id_conv)
    with Some show ?thesis
      by (simp add: setup_wifi_on_deactivate_def clearTimeout_def console_log_def)
  qed
  have rest: "setup_wifi_ssids (setup_wifi_on_deactivate s) = setup_wifi_ssids s
    \<and> tbody (setup_wifi_on_deactivate s) = tbody s
    \<and> in_flight (setup_wifi_on_deactivate s) = in_flight s
    \<and> next_request (setup_wifi_on_deactivate s) = next_request s
    \<and> api_base (setup_wifi_on_deactivate s) = api_base s
    \<and> timers (setup_wifi_on_deactivate s)
       = (case setup_wifi_scan_timer s of
            None \<Rightarrow> timers s
          | Some h \<Rightarrow> filter (\<lambda>p. fst p \<noteq> h) (timers s))"
    by (simp add: setup_wifi_on_deactivate_def clearTimeout_def console_log_def
        split: option.splits)
  have act: "setup_wifi_ssids (setup_wifi_on_activate s') = setup_wifi_ssids s'
    \<and> in_flight (setup_wifi_on_activate s') = in_flight s' @ [(next_request s', api_base s' @ ''wifi/scan'')]"
    for s' :: "'a state"
    by (simp add: setup_wifi_on_activate_def setup_wifi_scan_def getJSON_def
        set_html_def console_log_def)
  from noop rest act[of "setup_wifi_on_deactivate s"] show ?thesis
    by simp
qed

theorem deactivate_keeps_table_witness:
  "setup_wifi_on_deactivate
     (\<lparr>api_base = ''/api/'', setup_wifi_scan_timer = Some 2,
       setup_wifi_ssids = \<lparr>own = [(''A'', \<lparr>ssid = ''A'', auth = ''WPA2'', quality = 80, layout = Ssid_auth_quality\<rparr>)], proto = None\<rparr>,
       tbody = [], console = [], clock = 9000, timers = [(1, 5000)], next_timer = 3,
       in_flight = [(2, ''/api/wifi/scan'')], next_request = 3\<rparr> :: nat state)
   = console_log ''setup wifi DEactivate''
     \<lparr>api_base = ''/api/'', setup_wifi_scan_timer = Some 2,
       setup_wifi_ssids = \<lparr>own = [(''A'', \<lparr>ssid = ''A'', auth = ''WPA2'', quality = 80, layout = Ssid_auth_quality\<rparr>)], proto = None\<rparr>,
       tbody = [], console = [], clock = 9000, timers = [(1, 5000)], next_timer = 3,
       in_flight = [(2, ''/api/wifi/scan'')], next_request = 3\<rparr>"
  using deactivate_keeps_table
    [of "\<lparr>api_base = ''/api/'', setup_wifi_scan_timer = Some 2,
       setup_wifi_ssids = \<lparr>own = [(''A'', \<lparr>ssid = ''A'', auth = ''WPA2'', quality = 80, layout = Ssid_auth_quality\<rparr>)], proto = None\<rparr>,
       tbody = [], console = [], clock = 9000, timers = [(1, 5000)], next_timer = 3,
       in_flight = [(2, ''/api/wifi/scan'')], next_request = 3\<rparr> :: nat state"]
  by simp

subsection \<open>Failed scans\<close>

text \<open>
  C2, as stated, fails: a response whose body is an object without the member
  \<^verbatim>\<open>access-points\<close> reaches the success callback, no record is merged, and the
  next poll is scheduled; five seconds later the timer fires and a second request is
  sent.
\<close>

theorem missing_field_still_reschedules:
  "map_option (\<lambda>s. (timers s, setup_wifi_scan_timer s))
     (run (format decimal) [Activate, Respond 0 (Parsed (Json_object None))]
        (script_load ''/api/'' [] :: nat state))
   = Some ([(1, 5000)], Some 1)
   \<and> map_option next_request
     (run (format decimal) [Activate, Respond 0 (Parsed (Json_object None)), Elapse 5000, Fire 1]
        (script_load ''/api/'' [] :: nat state))
   = Some 2"
  by (simp add: step_def script_load_def setup_wifi_on_activate_def setup_wifi_scan_def
      getJSON_def set_html_def console_log_def deliver_parsed_object after_scan_def
      records_of_def)

text \<open>
  C2, amended: when a scan request ends in a network error or in a body that is not
  JSON, the success callback is not called: the request leaves the requests in flight
  and nothing else changes, so no next poll is scheduled. If it was the only request in
  flight and no timer is pending, no further scan is sent by any later sequence of events
  that does not activate the view.
\<close>

theorem failed_scan_stops_polling:
  assumes "r \<in> fst ` set (in_flight s)" and "resp = NetworkError \<or> resp = MalformedJSON"
  shows "step fmt (Respond r resp) s
           = Some (s\<lparr>in_flight := filter (\<lambda>p. fst p \<noteq> r) (in_flight s)\<rparr>)
         \<and> (timers s = [] \<and> fst ` set (in_flight s) = {r} \<and> Activate \<notin> set evs \<longrightarrow>
            (case run fmt (Respond r resp # evs) s of
               None \<Rightarrow> True
             | Some s' \<Rightarrow> next_request s' = next_request s \<and> idle s'))"
proof -
  let ?s1 = "s\<lparr>in_flight := filter (\<lambda>p. fst p \<noteq> r) (in_flight s)\<rparr>"
  from assms(2) have "resp = NetworkError \<or> resp = MalformedJSON \<or> resp = Parsed Json_null"
    by blast
  then have "deliver fmt r resp s = ?s1"
    by (rule deliver_failed)
  with assms(1) have st: "step fmt (Respond r resp) s = Some ?s1"
    by (simp add: step_Respond)
  have "next_request s' = next_request s \<and> idle s'"
    if "timers s = []" "fst ` set (in_flight s) = {r}" "Activate \<notin> set evs"
      "run fmt (Respond r resp # evs) s = Some s'" for s'
  proof -
    from that(2) have "filter (\<lambda>p. fst p \<noteq> r) (in_flight s) = []"
      by (auto simp: filter_empty_conv)
    with that(1) have "idle ?s1" by (simp add: idle_def)
    moreover from that(4) st have "run fmt evs ?s1 = Some s'" by simp
    ultimately have "idle s' \<and> next_request s' = next_request ?s1"
      using that(3) by (intro idle_run[where evs = evs and fmt = fmt])
    then show ?thesis by simp
  qed
  with st show ?thesis
    by (auto split: option.splits)
qed

theorem failed_scan_stops_polling_witness:
  "0 \<in> fst ` set (in_flight (setup_wifi_on_activate (script_load ''/api/'' [] :: nat state)))
   \<and> run (format decimal) [Respond 0 NetworkError, Elapse 6000, Deactivate, Elapse 6000]
       (setup_wifi_on_activate (script_load ''/api/'' [] :: nat state)) \<noteq> None
   \<and> (case run (format decimal) [Respond 0 NetworkError, Elapse 6000, Deactivate, Elapse 6000]
             (setup_wifi_on_activate (script_load ''/api/'' [] :: nat state)) of
        None \<Rightarrow> True
      | Some s' \<Rightarrow>
          next_request s' = next_request (setup_wifi_on_activate (script_load ''/api/'' [] :: nat state))
          \<and> idle s')"
proof -
  let ?s = "setup_wifi_on_activate (script_load ''/api/'' [] :: nat state)"
  let ?evs = "[Elapse 6000, Deactivate, Elapse 6000] :: nat event list"
  have h1: "0 \<in> fst ` set (in_flight ?s)"
    by (simp add: script_load_def setup_wifi_on_activate_def setup_wifi_scan_def getJSON_def
        set_html_def console_log_def)
  have h2: "NetworkError = (NetworkError :: nat response) \<or> NetworkError = (MalformedJSON :: nat response)"
    by simp
  have h3: "timers ?s = [] \<and> fst ` set (in_flight ?s) = {0} \<and> Activate \<notin> set ?evs"
    by (simp add: script_load_def setup_wifi_on_activate_def setup_wifi_scan_def getJSON_def
        set_html_def console_log_def)
  have ev: "run (format decimal) (Respond 0 NetworkError # ?evs) ?s \<noteq> None"
    by (simp add: step_def deliver_def script_load_def setup_wifi_on_activate_def
        setup_wifi_scan_def getJSON_def set_html_def console_log_def
        setup_wifi_on_deactivate_def clearTimeout_def)
  from failed_scan_stops_polling[OF h1 h2, of "format decimal" ?evs] h3
  have "case run (format decimal) (Respond 0 NetworkError # ?evs) ?s of
        None \<Rightarrow> True
      | Some s' \<Rightarrow> next_request s' = next_request ?s \<and> idle s'"
    by blast
  with h1 ev show ?thesis by blast
qed

subsection \<open>Deactivation and the poll chain\<close>

text \<open>
  C4, as stated, fails: the view is activated and deactivated while the first request is
  in flight; the response arrives, the callback schedules a timer, and five seconds later
  a second request is sent, with no \<^verbatim>\<open>activate()\<close> in between.
\<close>

theorem scan_dispatched_after_deactivate:
  "map_option next_request
     (run (format decimal) [Activate, Deactivate] (script_load ''/api/'' [] :: nat state))
   = Some 1
   \<and> map_option next_request
     (run (format decimal)
        [Activate, Deactivate, Respond 0 (Parsed (Json_object (Some []))), Elapse 5000, Fire 1]
        (script_load ''/api/'' [] :: nat state))
   = Some 2"
  by (simp add: step_def script_load_def setup_wifi_on_activate_def setup_wifi_scan_def
      getJSON_def set_html_def console_log_def deliver_parsed_object after_scan_def
      records_of_def setup_wifi_on_deactivate_def clearTimeout_def)

text \<open>
  C4, amended: when \<^verbatim>\<open>deactivate()\<close> is called while no scan request is in flight and the
  only pending timer, if any, is the one whose handle the script holds, then no scan
  request is sent by any later sequence of events that does not activate the view,
  however much time passes.
\<close>

theorem no_scan_after_deactivate_when_no_request_in_flight:
  assumes "in_flight s = []"
    and "\<forall>p \<in> set (timers s). setup_wifi_scan_timer s = Some (fst p)"
    and "Activate \<notin> set evs"
    and "run fmt (Deactivate # evs) s = Some s'"
  shows "next_request s' = next_request s \<and> idle s'"
proof -
  have "timers (setup_wifi_on_deactivate s) = []"
  proof (cases "setup_wifi_scan_timer s")
    case None
    have "timers s = []"
    proof (rule ccontr)
      assume "timers s \<noteq> []"
      then obtain p where "p \<in> set (timers s)" by (cases "timers s") auto
      with assms(2) have "setup_wifi_scan_timer s = Some (fst p)" by blast
      with None show False by simp
    qed
    with None show ?thesis
      by (simp add: setup_wifi_on_deactivate_def clearTimeout_def console_log_def)
  next
    case (Some h)
    with assms(2) have "filter (\<lambda>p. fst p \<noteq> h) (timers s) = []"
      by (auto simp: filter_empty_conv)
    with Some show ?thesis
      by (simp add: setup_wifi_on_deactivate_def clearTimeout_def console_log_def)
  qed
  moreover have "in_flight (setup_wifi_on_deactivate s) = in_flight s"
    and nr: "next_request (setup_wifi_on_deactivate s) = next_request s"
    by (simp_all add: setup_wifi_on_deactivate_def clearTimeout_def console_log_def
        split: option.splits)
  ultimately have "idle (setup_wifi_on_deactivate s)"
    using assms(1) by (simp add: idle_def)
  moreover from assms(4) have "run fmt evs (setup_wifi_on_deactivate s) = Some s'"
    by (simp add: step_def)
  ultimately have "idle s' \<and> next_request s' = next_request (setup_wifi_on_deactivate s)"
    using assms(3) by (intro idle_run[where evs = evs and fmt = fmt])
  with nr show ?thesis by simp
qed

theorem no_scan_after_deactivate_when_no_request_in_flight_witness:
  "in_flight (\<lparr>api_base = ''/api/'', setup_wifi_scan_timer = Some 1,
       setup_wifi_ssids = empty_obj, tbody = [], console = [], clock = 100,
       timers = [(1, 5100)], next_timer = 2, in_flight = [], next_request = 1\<rparr> :: nat state) = []
   \<and> run (format decimal) [Deactivate, Elapse 6000, Deactivate]
       (\<lparr>api_base = ''/api/'', setup_wifi_scan_timer = Some 1,
         setup_wifi_ssids = empty_obj, tbody = [], console = [], clock = 100,
         timers = [(1, 5100)], next_timer = 2, in_flight = [], next_request = 1\<rparr> :: nat state)
     = Some \<lparr>api_base = ''/api/'', setup_wifi_scan_timer = Some 1,
         setup_wifi_ssids = empty_obj, tbody = [],
         console = [''setup wifi DEactivate'', ''setup wifi DEactivate''], clock = 6100,
         timers = [], next_timer = 2, in_flight = [], next_request = 1\<rparr>
   \<and> next_request \<lparr>api_base = ''/api/'', setup_wifi_scan_timer = Some 1,
         setup_wifi_ssids = (empty_obj :: nat ssids_obj), tbody = [],
         console = [''setup wifi DEactivate'', ''setup wifi DEactivate''], clock = 6100,
         timers = [], next_timer = 2, in_flight = [], next_request = 1\<rparr> = 1
   \<and> step (format decimal) (Fire 1)
       (\<lparr>api_base = ''/api/'', setup_wifi_scan_timer = Some 1,
         setup_wifi_ssids = empty_obj, tbody = [],
         console = [''setup wifi DEactivate'', ''setup wifi DEactivate''], clock = 6100,
         timers = [], next_timer = 2, in_flight = [], next_request = 1\<rparr> :: nat state) = None"
proof -
  let ?s = "\<lparr>api_base = ''/api/'', setup_wifi_scan_timer = Some 1,
       setup_wifi_ssids = empty_obj, tbody = [], console = [], clock = 100,
       timers = [(1, 5100)], next_timer = 2, in_flight = [], next_request = 1\<rparr> :: nat state"
  let ?s' = "\<lparr>api_base = ''/api/'', setup_wifi_scan_timer = Some 1,
         setup_wifi_ssids = empty_obj, tbody = [],
         console = [''setup wifi DEactivate'', ''setup wifi DEactivate''], clock = 6100,
         timers = [], next_timer = 2, in_flight = [], next_request = 1\<rparr> :: nat state"
  have h1: "in_flight ?s = []" by simp
  have h2: "\<forall>p \<in> set (timers ?s). setup_wifi_scan_timer ?s = Some (fst p)" by simp
  have h3: "Activate \<notin> set [Elapse 6000, Deactivate :: nat event]" by simp
  have h4: "run (format decimal) (Deactivate # [Elapse 6000, Deactivate]) ?s = Some ?s'"
    by (simp add: step_def setup_wifi_on_deactivate_def clearTimeout_def console_log_def)
  have h5: "step (format decimal) (Fire 1) ?s' = None"
    by (simp add: step_def)
  from no_scan_after_deactivate_when_no_request_in_flight[OF h1 h2 h3 h4]
  have "next_request ?s' = next_request ?s" by blast
  then have "next_request ?s' = 1" by simp
  with h1 h4 h5 show ?thesis by blast
qed

text \<open>
  C5, as stated, fails: the view is activated, deactivated and activated again while the
  first request is still in flight; both responses arrive, each callback schedules a
  timer, and two polls are pending while the view is active.
\<close>

theorem two_pending_polls_while_active:
  "map_option timers
     (run (format decimal)
        [Activate, Deactivate, Activate,
         Respond 0 (Parsed (Json_object (Some []))), Respond 1 (Parsed (Json_object (Some [])))]
        (script_load ''/api/'' [] :: nat state))
   = Some [(1, 5000), (2, 5000)]"
  by (simp add: step_def script_load_def setup_wifi_on_activate_def setup_wifi_scan_def
      getJSON_def set_html_def console_log_def deliver_parsed_object after_scan_def
      records_of_def setup_wifi_on_deactivate_def clearTimeout_def)

text \<open>
  C5, amended: in every sequence of activations, deactivations, response arrivals, timer
  firings and waits in which \<^verbatim>\<open>activate()\<close> is only called while no scan request is in
  flight and no poll timer is pending, at most one poll timer is pending at any time;
  indeed pending timers and requests in flight together never exceed one.
\<close>

theorem at_most_one_pending_poll:
  assumes "length (timers s) + length (in_flight s) \<le> 1"
    and "activated_when_idle fmt evs s"
    and "run fmt evs s = Some s'"
  shows "length (timers s') \<le> 1 \<and> length (timers s') + length (in_flight s') \<le> 1"
proof -
  from assms have "length (timers s') + length (in_flight s') \<le> 1"
    by (rule chains_run)
  then show ?thesis by simp
qed

theorem at_most_one_pending_poll_witness:
  "activated_when_idle (format decimal)
     [Activate, Respond 0 (Parsed (Json_object (Some []))), Deactivate, Activate,
      Respond 1 (Parsed (Json_object (Some [])))]
     (script_load ''/api/'' [] :: nat state)
   \<and> (case run (format decimal)
        [Activate, Respond 0 (Parsed (Json_object (Some []))), Deactivate, Activate,
         Respond 1 (Parsed (Json_object (Some [])))]
        (script_load ''/api/'' [] :: nat state) of
        None \<Rightarrow> False
      | Some s' \<Rightarrow> length (timers s') \<le> 1 \<and> length (timers s') + length (in_flight s') \<le> 1)"
proof -
  let ?s = "script_load ''/api/'' [] :: nat state"
  let ?evs = "[Activate, Respond 0 (Parsed (Json_object (Some []))), Deactivate, Activate,
      Respond 1 (Parsed (Json_object (Some [])))] :: nat event list"
  have h1: "length (timers ?s) + length (in_flight ?s) \<le> 1"
    by (simp add: script_load_def)
  have h2: "activated_when_idle (format decimal) ?evs ?s"
    by (simp add: idle_def step_def script_load_def setup_wifi_on_activate_def
        setup_wifi_scan_def getJSON_def set_html_def console_log_def deliver_parsed_object
        after_scan_def records_of_def setup_wifi_on_deactivate_def clearTimeout_def)
  obtain s' where h3: "run (format decimal) ?evs ?s = Some s'"
    by (simp add: step_def script_load_def setup_wifi_on_activate_def
        setup_wifi_scan_def getJSON_def set_html_def console_log_def deliver_parsed_object
        after_scan_def records_of_def setup_wifi_on_deactivate_def clearTimeout_def)
  from at_most_one_pending_poll[OF h1 h2 h3]
  have "case run (format decimal) ?evs ?s of
        None \<Rightarrow> False
      | Some s' \<Rightarrow> length (timers s') \<le> 1 \<and> length (timers s') + length (in_flight s') \<le> 1"
    by (simp only: h3 option.case)
  with h2 show ?thesis by blast
qed

subsection \<open>The rows written by the formatter\<close>

lemma format_row_template:
  \<open>format nt row_template [String s, String a, Number q]
   = ''<tr><th scope="row">'' @ s @ ''</th><td>'' @ a @ ''</td><td>'' @ nt q @ ''</td>''\<close>
  by (simp add: format_def row_template_def digit_of_def)

lemma format_button_template:
  \<open>format nt button_template [String s]
   = ''<button class="btn btn-sm btn-outline-success" ssid="'' @ s
     @ ''">Connect</button></td></tr>'' @ [CHR 0x0A]\<close>
  by (simp add: format_def button_template_def digit_of_def)

lemma entry_row_format: "entry_row (format nt) ap = literal_row nt ap"
  by (simp only: entry_row_def literal_row_def format_row_template format_button_template
      cell_open_def append_assoc)

lemma sublist_concat_member:
  assumes "x \<in> set xs"
  shows "sublist (f x) (concat (map f xs))"
proof -
  from assms obtain ys zs where "xs = ys @ x # zs"
    by (auto dest: split_list)
  then have "concat (map f xs) = concat (map f ys) @ f x @ concat (map f zs)"
    by simp
  then show ?thesis
    by (simp only: sublist_appendI)
qed

lemma sublist_table_html:
  assumes "wf_obj t" and "(k, ap) \<in> set (own t)"
  shows "sublist (entry_row fmt ap) (table_html fmt t)"
proof -
  from assms(1) have "set (own_entries t) = set (own t)"
    by (metis mset_own_entries set_mset_mset)
  with assms(2) have "(k, ap) \<in> set (own_entries t)" by simp
  then have "sublist ((\<lambda>e. entry_row fmt (snd e)) (k, ap))
      (concat (map (\<lambda>e. entry_row fmt (snd e)) (own_entries t)))"
    by (rule sublist_concat_member)
  then have "sublist (entry_row fmt ap) (concat (map (\<lambda>e. entry_row fmt (snd e)) (own_entries t)))"
    by simp
  then obtain ps ss where
    "concat (map (\<lambda>e. entry_row fmt (snd e)) (own_entries t)) = ps @ entry_row fmt ap @ ss"
    by (auto simp: sublist_def)
  then have "table_html fmt t = ps @ entry_row fmt ap
      @ (ss @ concat (replicate (length (inherited_keys t)) (undefined_row fmt)))"
    by (simp add: table_html_def)
  then show ?thesis
    by (simp only: sublist_appendI)
qed

text \<open>
  C10: with the formatter as the spec describes it, the table body written by a completed
  callback contains, for every own entry of the table, the row
  \<^verbatim>\<open><tr><th scope="row">SSID</th><td>AUTH</td><td>QUALITY</td><td class="text-center">\<close>
  \<^verbatim>\<open><button class="btn btn-sm btn-outline-success" ssid="SSID">Connect</button></td></tr>\<close>
  with the entry's \<^verbatim>\<open>ssid\<close> and \<^verbatim>\<open>auth\<close> strings and the text of its \<^verbatim>\<open>quality\<close> copied
  character by character, whatever characters they contain: nothing is escaped, in the
  cells or in the button's attribute.
\<close>

theorem rows_embed_fields_verbatim:
  assumes "wf_obj (setup_wifi_ssids s)"
    and "s' = state_of (scan_callback (format nt) (Json_object aps) s)"
    and "(k, ap) \<in> set (own (setup_wifi_ssids s'))"
  shows "render (format nt) (setup_wifi_ssids s') = Inr (tbody s')
         \<and> sublist (literal_row nt ap) (tbody s')"
proof -
  from assms(2) have s': "s' = after_scan (format nt) (records_of aps) s"
    by (simp add: scan_callback_object)
  then have html: "tbody s' = table_html (format nt) (setup_wifi_ssids s')"
    by (simp add: after_scan_def)
  from s' assms(1) have "wf_obj (setup_wifi_ssids s')"
    by (simp add: after_scan_def wf_obj_merge)
  from this assms(3) have "sublist (entry_row (format nt) ap) (table_html (format nt) (setup_wifi_ssids s'))"
    by (rule sublist_table_html)
  then have "sublist (literal_row nt ap) (tbody s')"
    by (simp only: entry_row_format html)
  with html show ?thesis
    by (simp only: render_table_html simp_thms)
qed

theorem rows_embed_fields_verbatim_witness:
  \<open>wf_obj (setup_wifi_ssids (script_load ''/api/'' [] :: nat state))
   \<and> (''<b>x</b>'', \<lparr>ssid = ''<b>x</b>'', auth = ''"><script>'', quality = 80, layout = Ssid_auth_quality\<rparr>)
       \<in> set (own (setup_wifi_ssids (state_of (scan_callback (format decimal)
                (Json_object (Some [\<lparr>ssid = ''<b>x</b>'', auth = ''"><script>'', quality = 80, layout = Ssid_auth_quality\<rparr>]))
                (script_load ''/api/'' [] :: nat state)))))
   \<and> sublist
       (''<tr><th scope="row"><b>x</b></th><td>"><script></td><td>80</td>''
        @ ''<td class="text-center">''
        @ ''<button class="btn btn-sm btn-outline-success" ssid="<b>x</b>">Connect</button></td></tr>''
        @ [CHR 0x0A])
       (tbody (state_of (scan_callback (format decimal)
                (Json_object (Some [\<lparr>ssid = ''<b>x</b>'', auth = ''"><script>'', quality = 80, layout = Ssid_auth_quality\<rparr>]))
                (script_load ''/api/'' [] :: nat state))))\<close>
proof -
  let ?ap = \<open>\<lparr>ssid = ''<b>x</b>'', auth = ''"><script>'', quality = 80 :: nat, layout = Ssid_auth_quality\<rparr>\<close>
  let ?s = "script_load ''/api/'' [] :: nat state"
  let ?s' = "state_of (scan_callback (format decimal) (Json_object (Some [?ap])) ?s)"
  have h1: "wf_obj (setup_wifi_ssids ?s)"
    by (simp add: script_load_def empty_obj_def wf_obj_def)
  have h3: "(''<b>x</b>'', ?ap) \<in> set (own (setup_wifi_ssids ?s'))"
    by (simp add: scan_callback_object after_scan_def records_of_def script_load_def
        empty_obj_def put_prop_def)
  have d: "decimal 80 = ''80''" by code_simp
  have l: \<open>literal_row decimal ?ap
      = ''<tr><th scope="row"><b>x</b></th><td>"><script></td><td>80</td>''
        @ ''<td class="text-center">''
        @ ''<button class="btn btn-sm btn-outline-success" ssid="<b>x</b>">Connect</button></td></tr>''
        @ [CHR 0x0A]\<close>
    by (simp add: literal_row_def d)
  from rows_embed_fields_verbatim[OF h1 refl h3]
  have "sublist (literal_row decimal ?ap) (tbody ?s')"
    by blast
  then have \<open>sublist
       (''<tr><th scope="row"><b>x</b></th><td>"><script></td><td>80</td>''
        @ ''<td class="text-center">''
        @ ''<button class="btn btn-sm btn-outline-success" ssid="<b>x</b>">Connect</button></td></tr>''
        @ [CHR 0x0A]) (tbody ?s')\<close>
    by (simp only: l)
  with h1 h3 show ?thesis by blast
qed

subsection \<open>A response that arrives after deactivation\<close>







subsection \<open>The table after scan cycles\<close>

text \<open>
  C9: when the access points of one successful response include records with the ssid
  \<open>k\<close>, the table afterwards holds under \<open>k\<close> the whole record that comes last among them:
  reading \<^verbatim>\<open>setup_wifi_ssids[k]\<close> yields that object, and for every ssid but \<^verbatim>\<open>__proto__\<close> it
  is the own entry of that key.
\<close>

theorem last_duplicate_in_response_wins:
  assumes "wf_obj (setup_wifi_ssids s)" and "\<exists>a \<in> set aps. ssid a = k"
    and "s' = state_of (scan_callback fmt (Json_object (Some aps)) s)"
  shows "get_prop (setup_wifi_ssids s') k = Object (last (filter (\<lambda>a. ssid a = k) aps))
         \<and> (k \<noteq> ''__proto__'' \<longrightarrow>
            map_of (own (setup_wifi_ssids s')) k = Some (last (filter (\<lambda>a. ssid a = k) aps)))"
proof -
  from assms(3) have t: "setup_wifi_ssids s' = merge_aps (setup_wifi_ssids s) aps"
    by (simp add: scan_callback_object after_scan_def records_of_def)
  from assms(2) have "filter (\<lambda>a. ssid a = k) aps \<noteq> []"
    by (simp add: filter_empty_conv)
  then have "assigned (merge_aps (setup_wifi_ssids s) aps) k
      = Some (last (filter (\<lambda>a. ssid a = k) aps))"
    by (simp add: assigned_merge split: list.splits)
  then have "k \<noteq> ''__proto__'' \<longrightarrow>
      map_of (own (setup_wifi_ssids s')) k = Some (last (filter (\<lambda>a. ssid a = k) aps))"
    by (simp add: t assigned_def split: if_splits)
  moreover from assms(1,2) have "get_prop (setup_wifi_ssids s') k
      = Object (last (filter (\<lambda>a. ssid a = k) aps))"
    by (simp only: t get_prop_merge_last)
  ultimately show ?thesis by blast
qed

theorem last_duplicate_in_response_wins_witness:
  "wf_obj (setup_wifi_ssids (script_load ''/api/'' [] :: nat state))
   \<and> get_prop (setup_wifi_ssids (state_of (scan_callback (format decimal)
        (Json_object (Some [\<lparr>ssid = ''A'', auth = ''WPA2'', quality = 80, layout = Ssid_auth_quality\<rparr>,
                            \<lparr>ssid = ''B'', auth = ''Open'', quality = 40, layout = Ssid_auth_quality\<rparr>,
                            \<lparr>ssid = ''A'', auth = ''WPA2'', quality = 95, layout = Ssid_auth_quality\<rparr>]))
        (script_load ''/api/'' [] :: nat state)))) ''A''
     = Object \<lparr>ssid = ''A'', auth = ''WPA2'', quality = 95, layout = Ssid_auth_quality\<rparr>
   \<and> map_of (own (setup_wifi_ssids (state_of (scan_callback (format decimal)
        (Json_object (Some [\<lparr>ssid = ''A'', auth = ''WPA2'', quality = 80, layout = Ssid_auth_quality\<rparr>,
                            \<lparr>ssid = ''B'', auth = ''Open'', quality = 40, layout = Ssid_auth_quality\<rparr>,
                            \<lparr>ssid = ''A'', auth = ''WPA2'', quality = 95, layout = Ssid_auth_quality\<rparr>]))
        (script_load ''/api/'' [] :: nat state))))) ''A''
     = Some \<lparr>ssid = ''A'', auth = ''WPA2'', quality = 95, layout = Ssid_auth_quality\<rparr>"
proof -
  let ?s = "script_load ''/api/'' [] :: nat state"
  let ?aps = "[\<lparr>ssid = ''A'', auth = ''WPA2'', quality = 80 :: nat, layout = Ssid_auth_quality\<rparr>,
               \<lparr>ssid = ''B'', auth = ''Open'', quality = 40, layout = Ssid_auth_quality\<rparr>,
               \<lparr>ssid = ''A'', auth = ''WPA2'', quality = 95, layout = Ssid_auth_quality\<rparr>]"
  have h1: "wf_obj (setup_wifi_ssids ?s)"
    by (simp add: script_load_def empty_obj_def wf_obj_def)
  have h2: "\<exists>a \<in> set ?aps. ssid a = ''A''" by simp
  have l: "last (filter (\<lambda>a. ssid a = ''A'') ?aps) = \<lparr>ssid = ''A'', auth = ''WPA2'', quality = 95, layout = Ssid_auth_quality\<rparr>"
    by simp
  have h3: "''A'' \<noteq> ''__proto__''" by simp
  from last_duplicate_in_response_wins[OF h1 h2 refl, where fmt = "format decimal"] h3
  have "get_prop (setup_wifi_ssids (state_of (scan_callback (format decimal)
        (Json_object (Some ?aps)) ?s))) ''A'' = Object (last (filter (\<lambda>a. ssid a = ''A'') ?aps))"
    and "map_of (own (setup_wifi_ssids (state_of (scan_callback (format decimal)
        (Json_object (Some ?aps)) ?s)))) ''A'' = Some (last (filter (\<lambda>a. ssid a = ''A'') ?aps))"
    by blast+
  then have "get_prop (setup_wifi_ssids (state_of (scan_callback (format decimal)
        (Json_object (Some ?aps)) ?s))) ''A'' = Object \<lparr>ssid = ''A'', auth = ''WPA2'', quality = 95, layout = Ssid_auth_quality\<rparr>"
    and "map_of (own (setup_wifi_ssids (state_of (scan_callback (format decimal)
        (Json_object (Some ?aps)) ?s)))) ''A'' = Some \<lparr>ssid = ''A'', auth = ''WPA2'', quality = 95, layout = Ssid_auth_quality\<rparr>"
    by (simp_all only: l)
  with h1 show ?thesis by blast
qed

text \<open>
  What holds of the table after any number of successful cycles. The table is the merge
  of all their records; every ssid seen is assigned its most recent record; and when no
  record has the ssid \<^verbatim>\<open>__proto__\<close>, the keys the table enumerates are exactly the ssids
  seen.
\<close>

lemma merge_aps_append: "merge_aps t (xs @ ys) = merge_aps (merge_aps t xs) ys"
  by (induction xs arbitrary: t) simp_all

lemma scan_cycles_table:
  "setup_wifi_ssids (scan_cycles fmt rs s) = merge_aps (setup_wifi_ssids s) (concat rs)"
  by (induction rs arbitrary: s)
    (simp_all add: scan_callback_object after_scan_def records_of_def merge_aps_append)

lemma own_keys_merge:
  "fst ` set (own (merge_aps t aps)) = fst ` set (own t) \<union> (ssid ` set aps - {''__proto__''})"
proof (induction aps arbitrary: t)
  case Nil
  show ?case by simp
next
  case (Cons a aps)
  show ?case
    by (auto simp: Cons.IH put_prop_def set_keys_upsert)
qed

lemma proto_merge:
  "''__proto__'' \<notin> ssid ` set aps \<Longrightarrow> proto (merge_aps t aps) = proto t"
  by (induction aps arbitrary: t) (auto simp: put_prop_def)

lemma known_aps_last_write_wins:
  assumes "''__proto__'' \<notin> ssid ` set (concat rs)"
  shows "set (for_in (setup_wifi_ssids (scan_cycles fmt rs (script_load base html))))
           = ssid ` set (concat rs)"
    and "k \<in> ssid ` set (concat rs) \<Longrightarrow>
         get_prop (setup_wifi_ssids (scan_cycles fmt rs (script_load base html))) k
           = Object (last (filter (\<lambda>a. ssid a = k) (concat rs)))"
proof -
  let ?t = "setup_wifi_ssids (scan_cycles fmt rs (script_load base html))"
  have t: "?t = merge_aps empty_obj (concat rs)"
    by (simp add: scan_cycles_table script_load_def)
  from assms have "proto ?t = None"
    by (simp add: t proto_merge empty_obj_def)
  then have "for_in ?t = own_keys ?t"
    by (simp add: for_in_def inherited_keys_def)
  moreover from assms have "fst ` set (own ?t) = ssid ` set (concat rs)"
    unfolding t own_keys_merge by (auto simp: empty_obj_def)
  ultimately show "set (for_in ?t) = ssid ` set (concat rs)"
    by (simp add: set_own_keys)
  have wf: "wf_obj (empty_obj :: 'a ssids_obj)"
    by (simp add: wf_obj_def empty_obj_def)
  show "get_prop ?t k = Object (last (filter (\<lambda>a. ssid a = k) (concat rs)))"
    if "k \<in> ssid ` set (concat rs)"
  proof -
    from that have "\<exists>a \<in> set (concat rs). ssid a = k" by blast
    with wf show ?thesis
      unfolding t by (rule get_prop_merge_last)
  qed
qed

text \<open>
  C1, at a scan that reports an access point whose ssid is \<^verbatim>\<open>__proto__\<close>: the assignment
  \<^verbatim>\<open>setup_wifi_ssids["__proto__"] = ap\<close> replaces the prototype of the table instead of
  adding an entry. Afterwards the table has no own entry, so the ssid seen is not among
  its keys, and the loop over the table visits the three member names of the record,
  which are no ssids.
\<close>

theorem proto_ssid_is_not_an_entry:
  "map_option (\<lambda>s. (own (setup_wifi_ssids s), proto (setup_wifi_ssids s), for_in (setup_wifi_ssids s)))
     (run (format decimal)
        [Activate,
         Respond 0 (Parsed (Json_object (Some [\<lparr>ssid = ''__proto__'', auth = ''WPA2'', quality = 80, layout = Ssid_auth_quality\<rparr>])))]
        (script_load ''/api/'' [] :: nat state))
   = Some ([], Some \<lparr>ssid = ''__proto__'', auth = ''WPA2'', quality = 80, layout = Ssid_auth_quality\<rparr>,
           [''ssid'', ''auth'', ''quality''])"
  by (simp add: step_def script_load_def setup_wifi_on_activate_def setup_wifi_scan_def
      getJSON_def set_html_def console_log_def deliver_parsed_object after_scan_def
      records_of_def empty_obj_def put_prop_def for_in_def own_keys_def inherited_keys_def
      List.map_filter_simps)

subsection \<open>Rendering as a function of the table\<close>

text \<open>
  What holds of the rendering step in every table: it never fails, and its output is the
  concatenation of one row per own entry, in enumeration order, each made by the
  formatter from the entry's \<^verbatim>\<open>ssid\<close>, \<^verbatim>\<open>auth\<close> and \<^verbatim>\<open>quality\<close> and, for the button, from its
  \<^verbatim>\<open>ssid\<close> again, followed by one row per inherited key. The enumerated entries are the
  entries of the table, each once; there is no inherited key while the prototype is
  \<^verbatim>\<open>Object.prototype\<close>. Two cycles in a row whose responses carry no record leave the
  table as it is and write the same table body.
\<close>

lemma render_rows_of_table:
  "render fmt t =
     Inr (concat (map (\<lambda>e. entry_row fmt (snd e)) (own_entries t))
          @ concat (replicate (length (inherited_keys t)) (undefined_row fmt)))
   \<and> entry_row fmt ap =
       fmt row_template [String (ssid ap), String (auth ap), Number (quality ap)]
       @ cell_open @ fmt button_template [String (ssid ap)]
   \<and> (wf_obj t \<longrightarrow> mset (own_entries t) = mset (own t))
   \<and> (proto t = None \<longrightarrow> inherited_keys t = [])
   \<and> (let s1 = state_of (scan_callback fmt (Json_object (Some [])) s);
          s2 = state_of (scan_callback fmt (Json_object (Some [])) s1)
      in setup_wifi_ssids s1 = setup_wifi_ssids s
         \<and> setup_wifi_ssids s2 = setup_wifi_ssids s
         \<and> render fmt (setup_wifi_ssids s) = Inr (tbody s1)
         \<and> tbody s2 = tbody s1)"
proof -
  have a: "render fmt t =
     Inr (concat (map (\<lambda>e. entry_row fmt (snd e)) (own_entries t))
          @ concat (replicate (length (inherited_keys t)) (undefined_row fmt)))"
    by (rule render_closed)
  have b: "entry_row fmt ap =
       fmt row_template [String (ssid ap), String (auth ap), Number (quality ap)]
       @ cell_open @ fmt button_template [String (ssid ap)]"
    by (simp only: entry_row_def)
  have c: "wf_obj t \<longrightarrow> mset (own_entries t) = mset (own t)"
    using mset_own_entries by blast
  have d: "proto t = None \<longrightarrow> inherited_keys t = []"
    by (simp add: inherited_keys_def)
  have e: "let s1 = state_of (scan_callback fmt (Json_object (Some [])) s);
          s2 = state_of (scan_callback fmt (Json_object (Some [])) s1)
      in setup_wifi_ssids s1 = setup_wifi_ssids s
         \<and> setup_wifi_ssids s2 = setup_wifi_ssids s
         \<and> render fmt (setup_wifi_ssids s) = Inr (tbody s1)
         \<and> tbody s2 = tbody s1"
    by (simp add: scan_callback_object after_scan_def records_of_def render_table_html)
  show ?thesis
    by (rule conjI[OF a conjI[OF b conjI[OF c conjI[OF d e]]]])
qed

text \<open>
  C8, at the table left by a scan that reports an access point whose ssid is
  \<^verbatim>\<open>__proto__\<close>: the table has no entry, and yet the rendering step writes three rows, one
  for each member name of the installed record, whatever their order; each row is made
  from \<^verbatim>\<open>undefined\<close> in place of ssid, auth and quality, since what the table yields under
  those names is a string or a number, not an access point. So the output is not one row
  per table entry showing that entry's fields.
\<close>

theorem rows_without_entries_after_proto_ssid:
  "map_option (\<lambda>s. (own (setup_wifi_ssids s), tbody s))
     (run fmt
        [Activate,
         Respond 0 (Parsed (Json_object (Some
           [\<lparr>ssid = ''__proto__'', auth = ''WPA2'', quality = 80, layout = Quality_auth_ssid\<rparr>])))]
        (script_load ''/api/'' [] :: nat state))
   = Some ([],
       (fmt row_template [Undefined, Undefined, Undefined]
          @ cell_open @ fmt button_template [Undefined])
       @ (fmt row_template [Undefined, Undefined, Undefined]
          @ cell_open @ fmt button_template [Undefined])
       @ (fmt row_template [Undefined, Undefined, Undefined]
          @ cell_open @ fmt button_template [Undefined]))"
  by (simp add: step_def script_load_def setup_wifi_on_activate_def setup_wifi_scan_def
      getJSON_def set_html_def console_log_def deliver_parsed_object after_scan_def
      records_of_def empty_obj_def put_prop_def table_html_def own_entries_def own_keys_def
      inherited_keys_def undefined_row_def List.map_filter_simps)

end
